theory Spec2Isabelle
  imports Complex_Main "HOL-Library.Word"
begin

unbundle bit_operations_syntax

section \<open>JavaScript arithmetic used by the renderer\<close>

text \<open>
  The program of \<^verbatim>\<open>src/Jaggilines/default.js\<close> computes on JavaScript numbers that hold
  integers. They are modelled as \<^typ>\<open>int\<close>; the bitwise operators first bring their
  operands into the signed 32-bit window (\<open>ToInt32\<close>) and take the shift count modulo 32,
  which is written out here. A value that is \<^verbatim>\<open>undefined\<close> or \<^verbatim>\<open>NaN\<close> (an array read
  outside the array, arithmetic on such a read) is a constructor of its own.
\<close>

definition toInt32 :: "int \<Rightarrow> int" where
  "toInt32 x = (x + 2 ^ 31) mod 2 ^ 32 - 2 ^ 31"

text \<open>\<^verbatim>\<open>a << n\<close>\<close>
definition js_shl :: "int \<Rightarrow> int \<Rightarrow> int" where
  "js_shl a n = toInt32 (toInt32 a * 2 ^ nat (n mod 32))"

text \<open>\<^verbatim>\<open>a >> n\<close>\<close>
definition js_sar :: "int \<Rightarrow> int \<Rightarrow> int" where
  "js_sar a n = toInt32 a div 2 ^ nat (n mod 32)"


text \<open>\<^verbatim>\<open>a % b\<close> for \<open>b \<noteq> 0\<close>: the remainder has the sign of the dividend.\<close>
definition js_rem :: "int \<Rightarrow> int \<Rightarrow> int" where
  "js_rem a b = sgn a * (\<bar>a\<bar> mod \<bar>b\<bar>)"

datatype jsnum = Undefined | NaN | Num int

text \<open>\<^verbatim>\<open>table[i]\<close> for an integer \<open>i\<close>: \<^verbatim>\<open>undefined\<close> outside the array.\<close>
definition lookup :: "int list \<Rightarrow> int \<Rightarrow> jsnum" where
  "lookup table i = (if 0 \<le> i \<and> i < int (length table) then Num (table ! nat i) else Undefined)"

text \<open>\<^verbatim>\<open>a * b\<close>, \<^verbatim>\<open>- a\<close> and \<^verbatim>\<open>a >> n\<close> on values that may be \<^verbatim>\<open>undefined\<close>.\<close>
fun num_mul :: "jsnum \<Rightarrow> jsnum \<Rightarrow> jsnum" where
  "num_mul (Num a) (Num b) = Num (a * b)"
| "num_mul _ _ = NaN"

fun num_neg :: "jsnum \<Rightarrow> jsnum" where
  "num_neg (Num a) = Num (- a)"
| "num_neg _ = NaN"

fun num_sar :: "jsnum \<Rightarrow> int \<Rightarrow> int" where
  "num_sar (Num a) n = js_sar a n"
| "num_sar _ n = 0"

text \<open>\<^verbatim>\<open>a <= v\<close> and \<^verbatim>\<open>v < a\<close> with a number \<open>v\<close>: false when \<open>a\<close> is not a number.\<close>
fun num_le :: "jsnum \<Rightarrow> int \<Rightarrow> bool" where
  "num_le (Num a) v = (a \<le> v)"
| "num_le _ v = False"

fun lt_num :: "int \<Rightarrow> jsnum \<Rightarrow> bool" where
  "lt_num v (Num a) = (v < a)"
| "lt_num v _ = False"

section \<open>Constants\<close>

definition mapCoordinateBits :: int where "mapCoordinateBits = 4"
definition bitsBetweenTops :: int where "bitsBetweenTops = 12"
definition coordinateBits :: int where "coordinateBits = mapCoordinateBits + bitsBetweenTops"
definition maxHeightBits :: int where "maxHeightBits = 12"
definition maxHeight :: int where "maxHeight = js_shl 1 maxHeightBits"
definition maxVariation :: int where "maxVariation = js_sar maxHeight 4"
definition angleUnitPowerOfTwo :: int where "angleUnitPowerOfTwo = 2"
definition east :: int where "east = 0"
definition quarterCircle :: int where "quarterCircle = js_shl 90 angleUnitPowerOfTwo"
definition halfCircle :: int where "halfCircle = js_shl 180 angleUnitPowerOfTwo"
definition fullCircle :: int where "fullCircle = js_shl 360 angleUnitPowerOfTwo"

text \<open>\<^verbatim>\<open>mod(n, m) = ((n % m) + m) % m\<close>, for \<open>m \<noteq> 0\<close>.\<close>
definition mod_js :: "int \<Rightarrow> int \<Rightarrow> int" where
  "mod_js n m = js_rem (js_rem n m + m) m"

text \<open>\<^verbatim>\<open>clamp(val, max)\<close>: the value may have a fractional part, the bound is an integer.\<close>
definition clamp :: "real \<Rightarrow> int \<Rightarrow> int" where
  "clamp val mx = (if val < 0 then 0 else if val > of_int mx then mx else \<lfloor>val\<rfloor>)"

section \<open>Inverse lookup by binary search\<close>

text \<open>
  \<^verbatim>\<open>findIndexOf\<close> is a \<^verbatim>\<open>while (true)\<close> loop over the bounds \<open>low\<close> and \<open>high\<close>; a run
  that never returns is the value \<open>None\<close>.
\<close>

partial_function (option) findIndexOf_loop :: "int \<Rightarrow> int list \<Rightarrow> int \<Rightarrow> int \<Rightarrow> int option" where
  "findIndexOf_loop val table low high =
     (if high - low = 1 then Some (if num_le (lookup table high) val then high else low)
      else let mid = js_sar (low + high) 1 in
        if lookup table mid = Num val then Some mid
        else if lt_num val (lookup table mid) then findIndexOf_loop val table low mid
        else findIndexOf_loop val table mid high)"

definition findIndexOf :: "int \<Rightarrow> int list \<Rightarrow> int option" where
  "findIndexOf val table = findIndexOf_loop val table 0 (int (length table) - 1)"

declare findIndexOf_loop.simps [code]

section \<open>Trigonometric tables\<close>

text \<open>
  The tables are filled once, from \<^verbatim>\<open>Math.cos\<close>, \<^verbatim>\<open>Math.sin\<close> and \<^verbatim>\<open>Math.tan\<close> in floating
  point. What the engine computes for \<^verbatim>\<open>Math.cos(angle * Math.PI / halfCircle)\<close> is the
  parameter \<open>mcos\<close> (a function of the integer angle), likewise \<open>msin\<close> and \<open>mtan\<close>; the
  scaling by a power of two, the rounding and the length of each table are the program's.
\<close>

definition cosTable :: "(int \<Rightarrow> real) \<Rightarrow> int list" where
  "cosTable mcos = map (\<lambda>angle. \<lfloor>mcos angle * of_int (js_shl 1 bitsBetweenTops)\<rfloor>) [0..fullCircle - 1]"

definition sinTable :: "(int \<Rightarrow> real) \<Rightarrow> int list" where
  "sinTable msin = map (\<lambda>angle. \<lfloor>msin angle * of_int (js_shl 1 bitsBetweenTops)\<rfloor>) [0..fullCircle - 1]"

text \<open>\<^verbatim>\<open>Math.round(v)\<close> is \<open>\<lfloor>v + 1/2\<rfloor>\<close>.\<close>
definition tanTable :: "(int \<Rightarrow> real) \<Rightarrow> int list" where
  "tanTable mtan = map (\<lambda>angle. \<lfloor>mtan angle * of_int (js_shl 1 8) + 1 / 2\<rfloor>) [0..js_sar fullCircle 2 - 1]"

text \<open>\<^verbatim>\<open>tan(angle)\<close>, over a tangent table.\<close>
definition tan_js :: "int list \<Rightarrow> int \<Rightarrow> jsnum" where
  "tan_js table angle =
     (if js_rem (angle - quarterCircle) halfCircle = 0 then Undefined
      else let clampedAngle = mod_js angle halfCircle;
               tableIndex = (if clampedAngle > quarterCircle then halfCircle - clampedAngle
                             else clampedAngle);
               absResult = lookup table tableIndex
           in if clampedAngle > quarterCircle then num_neg absResult else absResult)"

section \<open>The terrain map\<close>

text \<open>
  Class \<^verbatim>\<open>Map\<close>: the grid \<^verbatim>\<open>#map\<close> of elevations, its size, and what the change handlers
  are called with, in order. \<open>TypeError\<close> is an access through a row that does not exist,
  \<open>RangeError\<close> an array length that \<^verbatim>\<open>Array(size)\<close> refuses; \<open>OutsideRow\<close> stands for a
  column index outside an existing row, where JavaScript would read \<^verbatim>\<open>undefined\<close> or grow
  the row.
\<close>

datatype error = TypeError | RangeError | OutsideRow

record TerrainMap =
  map_size :: int
  map_cells :: "int list list"
  notified :: "(int \<times> int \<times> int) list"

definition new_Map :: "int \<Rightarrow> error + TerrainMap" where
  "new_Map n =
     (if n < 0 \<or> 2 ^ 32 \<le> n then Inl RangeError
      else Inr \<lparr>map_size = n, map_cells = replicate (nat n) (replicate (nat n) 0), notified = []\<rparr>)"

text \<open>With size 0 the index \<^verbatim>\<open>mod(row, 0)\<close> is \<^verbatim>\<open>NaN\<close>, and no row is found.\<close>
definition get :: "TerrainMap \<Rightarrow> int \<Rightarrow> int \<Rightarrow> error + int" where
  "get m row col =
     (if map_size m = 0 then Inl TypeError
      else let r = mod_js row (map_size m); c = mod_js col (map_size m) in
        if 0 \<le> r \<and> r < int (length (map_cells m)) then
          (case lookup (map_cells m ! nat r) c of Num v \<Rightarrow> Inr v | _ \<Rightarrow> Inl OutsideRow)
        else Inl TypeError)"

definition set_cell :: "TerrainMap \<Rightarrow> int \<Rightarrow> int \<Rightarrow> real \<Rightarrow> error + TerrainMap" where
  "set_cell m row col val =
     (if map_size m = 0 then Inl TypeError
      else let v = \<lfloor>val\<rfloor>; r = mod_js row (map_size m); c = mod_js col (map_size m) in
        if 0 \<le> r \<and> r < int (length (map_cells m)) then
          (if 0 \<le> c \<and> c < int (length (map_cells m ! nat r)) then
             Inr (m\<lparr>map_cells := (map_cells m)[nat r := (map_cells m ! nat r)[nat c := v]],
                    notified := notified m @ [(r, c, v)]\<rparr>)
           else Inl OutsideRow)
        else Inl TypeError)"







text \<open>
  The shape of the grid that the constructor builds, and the range of elevations: every
  row has \<open>map_size\<close> cells and there are \<open>map_size\<close> rows; every cell, and every value
  the change handlers were called with, lies between 0 and \<open>maxHeight\<close>.
\<close>

definition wf_map :: "TerrainMap \<Rightarrow> bool" where
  "wf_map m \<longleftrightarrow>
     0 \<le> map_size m \<and> length (map_cells m) = nat (map_size m) \<and>
     list_all (\<lambda>row. length row = nat (map_size m)) (map_cells m)"

definition in_range :: "TerrainMap \<Rightarrow> bool" where
  "in_range m \<longleftrightarrow>
     list_all (list_all (\<lambda>v. 0 \<le> v \<and> v \<le> maxHeight)) (map_cells m) \<and>
     list_all (\<lambda>(r, c, v). 0 \<le> v \<and> v \<le> maxHeight) (notified m)"



section \<open>Interpolation laws\<close>

definition linearInterpolation ::
  "int \<Rightarrow> int \<Rightarrow> int \<Rightarrow> int \<Rightarrow> int \<Rightarrow> int \<Rightarrow> int \<Rightarrow> int \<times> int" where
  "linearInterpolation yMountain1 yMountain2 xScreen1 xScreen2 yScreen1 yScreen2 bisections =
     (js_sar (yMountain1 + yMountain2) 1, js_sar (yScreen1 + yScreen2) 1)"





section \<open>The viewport\<close>

text \<open>
  Class \<^verbatim>\<open>Viewport\<close>: its dimensions, the occlusion buffer \<^verbatim>\<open>#topHeights\<close> and the calls
  made on the canvas context, in order.
\<close>

datatype pixel = SkyPixel | MountainPixel | MountainEdgePixel

datatype drawcall = ClearRect int int int int | DrawImage pixel int int int int

record Viewport =
  width :: int
  height :: int
  scalePowerOfTwo :: int
  topHeights :: "int list"
  canvas :: "drawcall list"

text \<open>The first two statements of \<^verbatim>\<open>draw()\<close>: the canvas is cleared and the buffer reset.\<close>
definition beginFrame :: "Viewport \<Rightarrow> Viewport" where
  "beginFrame vp =
     vp\<lparr>canvas := canvas vp @
            [ClearRect 0 0 (js_shl (width vp) (scalePowerOfTwo vp))
               (js_shl (height vp) (scalePowerOfTwo vp))],
        topHeights := replicate (nat (width vp)) (- 1)\<rparr>"

definition drawMountainColumn :: "Viewport \<Rightarrow> int \<Rightarrow> int \<Rightarrow> Viewport" where
  "drawMountainColumn vp xScreen mountainTop =
     (if xScreen < 0 \<or> xScreen \<ge> width vp then vp
      else case lookup (topHeights vp) xScreen of
        Num topHeight \<Rightarrow>
          (let s = scalePowerOfTwo vp in
           if topHeight = - 1 then
             vp\<lparr>canvas := canvas vp @
                   [DrawImage SkyPixel (js_shl xScreen s) 0 (js_shl 1 s)
                      (js_shl (height vp - mountainTop) s),
                    DrawImage MountainPixel (js_shl xScreen s)
                      (js_shl (height vp - mountainTop) s) (js_shl 1 s) (js_shl mountainTop s)],
                topHeights := (topHeights vp)[nat xScreen := mountainTop]\<rparr>
           else if mountainTop > topHeight then
             vp\<lparr>canvas := canvas vp @
                   [DrawImage MountainEdgePixel (js_shl xScreen s)
                      (js_shl (height vp - topHeight) s) (js_shl 1 s) (js_shl 1 s),
                    DrawImage MountainPixel (js_shl xScreen s)
                      (js_shl (height vp - mountainTop) s) (js_shl 1 s)
                      (js_shl (mountainTop - topHeight) s)],
                topHeights := (topHeights vp)[nat xScreen := mountainTop]\<rparr>
           else vp)
      | _ \<Rightarrow> vp)"

text \<open>
  \<^verbatim>\<open>#interpolate\<close>, with the interpolation law of the viewport as the argument \<open>law\<close>.
  A recursion that never ends is the value \<open>None\<close>.
\<close>

partial_function (option) interpolate ::
  "(int \<Rightarrow> int \<Rightarrow> int \<Rightarrow> int \<Rightarrow> int \<Rightarrow> int \<Rightarrow> int \<Rightarrow> int \<times> int) \<Rightarrow>
   int \<Rightarrow> int \<Rightarrow> int \<Rightarrow> int \<Rightarrow> int \<Rightarrow> int \<Rightarrow> int \<Rightarrow> Viewport \<Rightarrow> Viewport option" where
  "interpolate law yMountain1 yMountain2 x1 x2 y1 y2 bisections vp =
     (if (x1 < 0 \<or> x1 \<ge> width vp) \<and> (x2 < 0 \<or> y2 \<ge> width vp) then Some vp
      else let midX = js_sar (x1 + x2) 1 in
        if midX \<noteq> x1 \<and> midX \<noteq> x2 then
          (case law yMountain1 yMountain2 x1 x2 y1 y2 bisections of
             (midMountainY, midScreenY) \<Rightarrow>
               Option.bind
                 (interpolate law yMountain1 midMountainY x1 midX y1 midScreenY (bisections + 1)
                    (drawMountainColumn vp midX midScreenY))
                 (interpolate law midMountainY yMountain2 midX x2 midScreenY y2 (bisections + 1)))
        else Some vp)"

declare interpolate.simps [code]

section \<open>The ship\<close>

record Valkyrie =
  ship_x :: int
  ship_y :: int
  ship_z :: int
  thrust :: int
  heading :: int
  pitch :: int
  roll :: int
  rollToAngle :: int

text \<open>\<^verbatim>\<open>move()\<close>, over the cosine and sine tables.\<close>
definition move :: "int list \<Rightarrow> int list \<Rightarrow> Valkyrie \<Rightarrow> Valkyrie" where
  "move cosT sinT v =
     (let h = mod_js (heading v + roll v * rollToAngle v) fullCircle;
          x' = mod_js (ship_x v +
                 js_sar (num_sar (num_mul (num_mul (Num (thrust v)) (lookup cosT h))
                                    (lookup cosT (pitch v))) bitsBetweenTops) bitsBetweenTops)
                 (js_shl 1 coordinateBits);
          y' = mod_js (ship_y v -
                 js_sar (num_sar (num_mul (num_mul (Num (thrust v)) (lookup sinT h))
                                    (lookup cosT (pitch v))) bitsBetweenTops) bitsBetweenTops)
                 (js_shl 1 coordinateBits);
          z' = clamp (of_int (ship_z v +
                 num_sar (num_mul (Num (thrust v)) (lookup sinT (pitch v))) bitsBetweenTops))
                 (js_shl 1 coordinateBits)
      in v\<lparr>heading := h, ship_x := x', ship_y := y', ship_z := z'\<rparr>)"

text \<open>The indices at which \<^verbatim>\<open>move()\<close> reads the two tables, in the order of the reads.\<close>
datatype trig = Cos | Sin

definition move_reads :: "Valkyrie \<Rightarrow> (trig \<times> int) list" where
  "move_reads v =
     (let h = mod_js (heading v + roll v * rollToAngle v) fullCircle in
      [(Cos, h), (Cos, pitch v), (Sin, h), (Cos, pitch v), (Sin, pitch v)])"

section \<open>Facts about the arithmetic\<close>

lemma toInt32_id: "- (2 ^ 31) \<le> x \<Longrightarrow> x < 2 ^ 31 \<Longrightarrow> toInt32 x = x"
  by (simp add: toInt32_def)


lemma angle_consts:
  "quarterCircle = 360" "halfCircle = 720" "fullCircle = 1440"
  by (simp_all add: quarterCircle_def halfCircle_def fullCircle_def angleUnitPowerOfTwo_def
      js_shl_def toInt32_def)

lemma size_consts:
  "maxHeight = 4096" "maxVariation = 256" "js_shl 1 coordinateBits = 65536"
  "js_shl 1 bitsBetweenTops = 4096"
  by (simp_all add: maxHeight_def maxVariation_def maxHeightBits_def coordinateBits_def
      mapCoordinateBits_def bitsBetweenTops_def js_shl_def js_sar_def toInt32_def)

lemma js_rem_eq_0_iff: "js_rem a b = 0 \<longleftrightarrow> a mod b = 0"
proof -
  have "\<bar>a\<bar> mod \<bar>b\<bar> = 0 \<longleftrightarrow> a mod b = 0"
    by (simp add: mod_eq_0_iff_dvd)
  then show ?thesis by (auto simp: js_rem_def sgn_if)
qed

lemma js_rem_pos: "0 \<le> a \<Longrightarrow> 0 < m \<Longrightarrow> js_rem a m = a mod m"
  by (simp add: js_rem_def sgn_if)

lemma mod_js_eq: "0 < m \<Longrightarrow> mod_js n m = n mod m"
proof -
  assume m: "0 < m"
  show ?thesis
  proof (cases "0 \<le> n")
    case True
    then have "js_rem n m = n mod m" using m by (rule js_rem_pos)
    moreover have "0 \<le> n mod m + m" using m by (simp add: add_nonneg_nonneg)
    ultimately show ?thesis using m by (simp add: mod_js_def js_rem_pos)
  next
    case False
    then have r: "js_rem n m = - ((- n) mod m)" using m by (simp add: js_rem_def sgn_if)
    have "(- n) mod m < m" using m by simp
    then have nn: "0 \<le> - ((- n) mod m) + m" by simp
    have "(- ((- n) mod m) + m) mod m = (- ((- n) mod m)) mod m" by simp
    also have "\<dots> = (- (- n)) mod m" by (simp only: mod_minus_eq)
    finally have "(- ((- n) mod m) + m) mod m = n mod m" by simp
    then show ?thesis using m nn by (simp add: mod_js_def r js_rem_pos)
  qed
qed

section \<open>The binary search\<close>





text \<open>
  C3, as the code has it. The regression table of the test harness lists 22 expected
  values; they are what \<^verbatim>\<open>findIndexOf\<close> returns on \<open>[3, 7, 15, 15, 16, 18]\<close> for the queries
  0 to 21, and the queries 0 to 19 give the first 20 of them. When the bounds are an
  adjacent pair the result is the higher index if the table holds a value there that is
  at most the query, and the lower index otherwise.
\<close>

theorem findIndexOf_regression:
  "map (\<lambda>q. findIndexOf q [3, 7, 15, 15, 16, 18]) [0..21] =
     map Some [0, 0, 0, 0, 0, 0, 0, 1, 1, 1, 1, 1, 1, 1, 1, 2, 4, 4, 5, 5, 5, 5]
   \<and> map (\<lambda>q. findIndexOf q [3, 7, 15, 15, 16, 18]) [0..19] =
     map Some [0, 0, 0, 0, 0, 0, 0, 1, 1, 1, 1, 1, 1, 1, 1, 2, 4, 4, 5, 5]
   \<and> (\<forall>val table low high. high - low = 1 \<longrightarrow>
        findIndexOf_loop val table low high =
          Some (if num_le (lookup table high) val then high else low))"
proof (intro conjI allI impI)
  show "map (\<lambda>q. findIndexOf q [3, 7, 15, 15, 16, 18]) [0..21] =
     map Some [0, 0, 0, 0, 0, 0, 0, 1, 1, 1, 1, 1, 1, 1, 1, 2, 4, 4, 5, 5, 5, 5]"
    by code_simp
  show "map (\<lambda>q. findIndexOf q [3, 7, 15, 15, 16, 18]) [0..19] =
     map Some [0, 0, 0, 0, 0, 0, 0, 1, 1, 1, 1, 1, 1, 1, 1, 2, 4, 4, 5, 5]"
    by code_simp
  fix val low high :: int and table :: "int list"
  assume "high - low = 1"
  then show "findIndexOf_loop val table low high =
          Some (if num_le (lookup table high) val then high else low)"
    by (subst findIndexOf_loop.simps) simp
qed

theorem findIndexOf_regression_witness:
  "(5 :: int) - 4 = 1 \<and> findIndexOf_loop 17 [3, 7, 15, 15, 16, 18] 4 5 = Some 4"
  using findIndexOf_regression by (simp add: lookup_def)

text \<open>
  C3, as the claim has it: the 20 queries 0 to 19 do not give the sequence of 22 values.
\<close>

theorem findIndexOf_regression_counterexample:
  "map (\<lambda>q. findIndexOf q [3, 7, 15, 15, 16, 18]) [0..19] \<noteq>
     map Some [0, 0, 0, 0, 0, 0, 0, 1, 1, 1, 1, 1, 1, 1, 1, 2, 4, 4, 5, 5, 5, 5]"
  by code_simp




section \<open>The tangent\<close>

lemma tanTable_length: "length (tanTable mtan) = 360"
  by (simp add: tanTable_def angle_consts js_sar_def toInt32_def)

lemma tan_asymptote: "js_rem (a - 360) 720 = 0 \<longleftrightarrow> a mod 720 = 360"
proof -
  have "(a - 360) mod 720 = 0 \<longleftrightarrow> a mod 720 = 360 mod 720"
    by (metis mod_eq_dvd_iff mod_0_imp_dvd dvd_imp_mod_0)
  then show ?thesis unfolding js_rem_eq_0_iff by simp
qed

lemma full_half: "a mod 720 = 360 \<longleftrightarrow> a mod 1440 = 360 \<or> a mod 1440 = (1080 :: int)"
proof -
  define x where "x = a mod 1440"
  have x: "0 \<le> x" "x < 1440" by (simp_all add: x_def)
  have "x mod 720 = a mod 720" unfolding x_def by (rule mod_mod_cancel) simp
  moreover have "x mod 720 = 360 \<longleftrightarrow> x = 360 \<or> x = 1080"
  proof (cases "x < 720")
    case True
    then have "x mod 720 = x" using x by (intro mod_pos_pos_trivial) auto
    then show ?thesis using True by auto
  next
    case False
    then have "(x - 720) mod 720 = x - 720" using x by (intro mod_pos_pos_trivial) auto
    then have "x mod 720 = x - 720" by simp
    then show ?thesis using False by auto
  qed
  ultimately show ?thesis by (simp add: x_def)
qed

lemma tan_low: "a mod 720 < 360 \<Longrightarrow> tan_js (tanTable mtan) a = Num (tanTable mtan ! nat (a mod 720))"
proof -
  assume h: "a mod 720 < 360"
  then have na: "a mod 720 \<noteq> 360" by simp
  have c: "mod_js a 720 = a mod 720" by (simp add: mod_js_eq)
  have "0 \<le> a mod 720" by simp
  then have l: "lookup (tanTable mtan) (a mod 720) = Num (tanTable mtan ! nat (a mod 720))"
    using h by (simp add: lookup_def tanTable_length)
  show ?thesis
    using h na l by (simp add: tan_js_def tan_asymptote c angle_consts Let_def)
qed

lemma tan_high: "360 < a mod 720 \<Longrightarrow>
   tan_js (tanTable mtan) a = Num (- (tanTable mtan ! nat (720 - a mod 720)))"
proof -
  assume h: "360 < a mod 720"
  then have na: "a mod 720 \<noteq> 360" by simp
  have c: "mod_js a 720 = a mod 720" by (simp add: mod_js_eq)
  have "a mod 720 < 720" by simp
  then have l: "lookup (tanTable mtan) (720 - a mod 720) = Num (tanTable mtan ! nat (720 - a mod 720))"
    using h by (simp add: lookup_def tanTable_length)
  show ?thesis
    using h na l by (simp add: tan_js_def tan_asymptote c angle_consts Let_def)
qed

lemma tan_undef: "tan_js (tanTable mtan) a = Undefined \<longleftrightarrow> a mod 720 = 360"
proof -
  consider "a mod 720 < 360" | "a mod 720 = 360" | "360 < a mod 720" by linarith
  then show ?thesis
  proof cases
    case 1 then show ?thesis using tan_low [of a mtan] by simp
  next
    case 2 then show ?thesis by (simp add: tan_js_def angle_consts tan_asymptote)
  next
    case 3 then show ?thesis using tan_high [of a mtan] by simp
  qed
qed

text \<open>
  C5: \<^verbatim>\<open>tan(angle)\<close> is \<^verbatim>\<open>undefined\<close> exactly at the angles congruent to the quarter or
  the three-quarter circle modulo the full circle. At every other integer angle it is a
  number read from the table of \<open>fullCircle / 4\<close> entries: the entry at the angle reduced
  modulo the half circle when that lies below the quarter circle, and the negated entry at
  the mirrored angle when it lies above.
\<close>

theorem tan_domain:
  "(tan_js (tanTable mtan) a = Undefined \<longleftrightarrow>
      a mod fullCircle = quarterCircle \<or> a mod fullCircle = 3 * quarterCircle)
   \<and> length (tanTable mtan) = nat (fullCircle div 4)
   \<and> (a mod halfCircle < quarterCircle \<longrightarrow>
        tan_js (tanTable mtan) a = Num (tanTable mtan ! nat (a mod halfCircle)))
   \<and> (quarterCircle < a mod halfCircle \<longrightarrow>
        nat (halfCircle - a mod halfCircle) < length (tanTable mtan) \<and>
        tan_js (tanTable mtan) a = Num (- (tanTable mtan ! nat (halfCircle - a mod halfCircle))))"
proof (intro conjI impI)
  show "tan_js (tanTable mtan) a = Undefined \<longleftrightarrow>
      a mod fullCircle = quarterCircle \<or> a mod fullCircle = 3 * quarterCircle"
    unfolding tan_undef full_half angle_consts by simp
  show "length (tanTable mtan) = nat (fullCircle div 4)"
    by (simp add: tanTable_length angle_consts)
  show "tan_js (tanTable mtan) a = Num (tanTable mtan ! nat (a mod halfCircle))"
    if "a mod halfCircle < quarterCircle"
    using that tan_low [of a mtan] by (simp add: angle_consts)
  show "nat (halfCircle - a mod halfCircle) < length (tanTable mtan)"
    if "quarterCircle < a mod halfCircle"
    using that by (simp add: tanTable_length angle_consts)
  show "tan_js (tanTable mtan) a = Num (- (tanTable mtan ! nat (halfCircle - a mod halfCircle)))"
    if "quarterCircle < a mod halfCircle"
    using that tan_high [of a mtan] by (simp add: angle_consts)
qed

theorem tan_domain_witness:
  "quarterCircle < (361 :: int) mod halfCircle \<and>
   tan_js (tanTable (\<lambda>angle. tan (real_of_int angle * pi / real_of_int halfCircle))) 361 =
     Num (- (tanTable (\<lambda>angle. tan (real_of_int angle * pi / real_of_int halfCircle)) ! nat (halfCircle - 361 mod halfCircle))) \<and>
   (360 :: int) mod fullCircle = quarterCircle \<and>
   tan_js (tanTable (\<lambda>angle. tan (real_of_int angle * pi / real_of_int halfCircle))) 360 = Undefined"
proof -
  have h: "quarterCircle < (361 :: int) mod halfCircle" by (simp add: angle_consts)
  have g: "(360 :: int) mod fullCircle = quarterCircle" by (simp add: angle_consts)
  from tan_domain [of "\<lambda>angle. tan (real_of_int angle * pi / real_of_int halfCircle)" 361] tan_domain [of "\<lambda>angle. tan (real_of_int angle * pi / real_of_int halfCircle)" 360] h g
  show ?thesis by blast
qed

section \<open>The terrain map is a torus\<close>

lemma new_Map_wf: "new_Map n = Inr m \<Longrightarrow> wf_map m \<and> map_size m = n \<and> in_range m"
  by (auto simp: new_Map_def wf_map_def in_range_def list_all_length size_consts split: if_splits)

lemma wf_row:
  assumes "wf_map m" "0 \<le> r" "r < map_size m"
  shows "length (map_cells m ! nat r) = nat (map_size m)"
  using assms by (auto simp: wf_map_def list_all_length)

lemma get_wf:
  assumes "wf_map m" "0 < map_size m"
  shows "get m row col = Inr (map_cells m ! nat (row mod map_size m) ! nat (col mod map_size m))"
proof -
  let ?n = "map_size m"
  have r: "0 \<le> row mod ?n" "row mod ?n < ?n" and c: "0 \<le> col mod ?n" "col mod ?n < ?n"
    using assms(2) by simp_all
  have len: "length (map_cells m) = nat ?n" using assms(1) by (simp add: wf_map_def)
  have rowlen: "length (map_cells m ! nat (row mod ?n)) = nat ?n"
    using assms(1) r by (rule wf_row)
  show ?thesis
    using assms(2) r c len rowlen by (simp add: get_def mod_js_eq lookup_def Let_def)
qed

lemma set_cell_wf:
  assumes "wf_map m" "0 < map_size m"
  shows "set_cell m row col val =
     Inr (m\<lparr>map_cells := (map_cells m)[nat (row mod map_size m) :=
                (map_cells m ! nat (row mod map_size m))[nat (col mod map_size m) := \<lfloor>val\<rfloor>]],
            notified := notified m @ [(row mod map_size m, col mod map_size m, \<lfloor>val\<rfloor>)]\<rparr>)"
proof -
  let ?n = "map_size m"
  have r: "0 \<le> row mod ?n" "row mod ?n < ?n" and c: "0 \<le> col mod ?n" "col mod ?n < ?n"
    using assms(2) by simp_all
  have len: "length (map_cells m) = nat ?n" using assms(1) by (simp add: wf_map_def)
  have rowlen: "length (map_cells m ! nat (row mod ?n)) = nat ?n"
    using assms(1) r by (rule wf_row)
  show ?thesis
    using assms(2) r c len rowlen by (simp add: set_cell_def mod_js_eq Let_def)
qed

lemma set_cell_keeps_wf:
  assumes "wf_map m" "0 < map_size m" "set_cell m row col val = Inr m'"
  shows "wf_map m' \<and> map_size m' = map_size m"
proof -
  have m': "m' = m\<lparr>map_cells := (map_cells m)[nat (row mod map_size m) :=
                (map_cells m ! nat (row mod map_size m))[nat (col mod map_size m) := \<lfloor>val\<rfloor>]],
            notified := notified m @ [(row mod map_size m, col mod map_size m, \<lfloor>val\<rfloor>)]\<rparr>"
    using assms set_cell_wf [of m row col val] by simp
  have "list_all (\<lambda>row. length row = nat (map_size m)) (map_cells m')"
    using assms(1) unfolding m' wf_map_def list_all_length
    by (auto simp: nth_list_update)
  then show ?thesis using assms(1) by (simp add: m' wf_map_def)
qed

lemma get_set_same:
  assumes "wf_map m" "0 < map_size m" "set_cell m row col val = Inr m'"
  shows "get m' row col = Inr \<lfloor>val\<rfloor>"
proof -
  let ?n = "map_size m"
  have m': "m' = m\<lparr>map_cells := (map_cells m)[nat (row mod map_size m) :=
                (map_cells m ! nat (row mod map_size m))[nat (col mod map_size m) := \<lfloor>val\<rfloor>]],
            notified := notified m @ [(row mod map_size m, col mod map_size m, \<lfloor>val\<rfloor>)]\<rparr>"
    using assms set_cell_wf [of m row col val] by simp
  have wf': "wf_map m'" "map_size m' = ?n" using set_cell_keeps_wf [OF assms] by simp_all
  have r: "0 \<le> row mod ?n" "row mod ?n < ?n" and c: "0 \<le> col mod ?n" "col mod ?n < ?n"
    using assms(2) by simp_all
  have len: "length (map_cells m) = nat ?n" using assms(1) by (simp add: wf_map_def)
  have rowlen: "length (map_cells m ! nat (row mod ?n)) = nat ?n"
    using assms(1) r by (rule wf_row)
  have "get m' row col = Inr (map_cells m' ! nat (row mod ?n) ! nat (col mod ?n))"
    using get_wf [of m' row col] wf' assms(2) by simp
  also have "map_cells m' ! nat (row mod ?n) ! nat (col mod ?n) = \<lfloor>val\<rfloor>"
    using r c len rowlen by (simp add: m')
  finally show ?thesis .
qed

text \<open>
  C7: on a map of grid size \<open>N > 0\<close> with \<open>N\<close> rows of \<open>N\<close> cells, \<^verbatim>\<open>get(row, col)\<close> and
  \<^verbatim>\<open>get(row + N, col + N)\<close> are equal for all integers \<open>row\<close> and \<open>col\<close>. Both \<^verbatim>\<open>get\<close> and
  \<^verbatim>\<open>set\<close> access the cell at \<open>(row mod N, col mod N)\<close>, which is inside the grid, so the
  column after \<open>N - 1\<close> is column 0, and what \<^verbatim>\<open>set\<close> stores is read back by \<^verbatim>\<open>get\<close>.
\<close>

theorem map_wraps:
  assumes "wf_map m" "0 < map_size m"
  shows "get m (row + map_size m) (col + map_size m) = get m row col
    \<and> get m row col = Inr (map_cells m ! nat (row mod map_size m) ! nat (col mod map_size m))
    \<and> nat (row mod map_size m) < length (map_cells m)
    \<and> nat (col mod map_size m) < length (map_cells m ! nat (row mod map_size m))
    \<and> get m row (map_size m - 1 + 1) = get m row 0
    \<and> (\<exists>m'. set_cell m row col val = Inr m' \<and> wf_map m' \<and> map_size m' = map_size m \<and>
          get m' row col = Inr \<lfloor>val\<rfloor> \<and>
          get m' (row + map_size m) (col + map_size m) = Inr \<lfloor>val\<rfloor>)"
proof -
  let ?n = "map_size m"
  have r: "0 \<le> row mod ?n" "row mod ?n < ?n" and c: "0 \<le> col mod ?n" "col mod ?n < ?n"
    using assms(2) by simp_all
  have len: "length (map_cells m) = nat ?n" using assms(1) by (simp add: wf_map_def)
  have rowlen: "length (map_cells m ! nat (row mod ?n)) = nat ?n"
    using assms(1) r by (rule wf_row)
  have shift: "get m (row + ?n) (col + ?n) = get m row col"
    by (simp add: get_wf [OF assms])
  have edge: "get m row (?n - 1 + 1) = get m row 0"
    by (simp add: get_wf [OF assms])
  obtain m' where m': "set_cell m row col val = Inr m'"
    using set_cell_wf [OF assms] by blast
  have wf': "wf_map m'" "map_size m' = ?n" using set_cell_keeps_wf [OF assms m'] by simp_all
  have g: "get m' row col = Inr \<lfloor>val\<rfloor>" by (rule get_set_same [OF assms m'])
  have "get m' (row + ?n) (col + ?n) = get m' row col"
    using wf' assms(2) by (simp add: get_wf)
  with g have g2: "get m' (row + ?n) (col + ?n) = Inr \<lfloor>val\<rfloor>" by simp
  show ?thesis
    using shift edge get_wf [OF assms, of row col] r c len rowlen m' wf' g g2 by simp
qed

theorem map_wraps_witness:
  "wf_map \<lparr>map_size = 2, map_cells = [[1, 2], [3, 4]], notified = []\<rparr> \<and>
   get \<lparr>map_size = 2, map_cells = [[1, 2], [3, 4]], notified = []\<rparr> (1 + 2) (- 1 + 2) =
   get \<lparr>map_size = 2, map_cells = [[1, 2], [3, 4]], notified = []\<rparr> 1 (- 1) \<and>
   get \<lparr>map_size = 2, map_cells = [[1, 2], [3, 4]], notified = []\<rparr> 1 (- 1) = Inr 4"
proof -
  have w: "wf_map \<lparr>map_size = 2, map_cells = [[1, 2], [3, 4]], notified = []\<rparr>"
    by (simp add: wf_map_def)
  have p: "0 < map_size \<lparr>map_size = 2, map_cells = [[1, 2], [3, 4]], notified = []\<rparr>" by simp
  from map_wraps [OF w p, of 1 "- 1" 0] w show ?thesis by simp
qed

section \<open>The range of generated elevations\<close>






















section \<open>One step of the ship\<close>

lemma trig_length: "length (cosTable mcos) = 1440" "length (sinTable msin) = 1440"
  by (simp_all add: cosTable_def sinTable_def angle_consts)

lemma upto_nth_0: "0 \<le> j \<Longrightarrow> [0..j] ! 0 = 0"
  by (simp add: upto.simps)

lemma cosTable_0: "mcos 0 = 1 \<Longrightarrow> lookup (cosTable mcos) 0 = Num 4096"
proof -
  assume m: "mcos 0 = 1"
  have "cosTable mcos ! 0 = \<lfloor>mcos ([0..1439] ! 0) * 4096\<rfloor>"
    unfolding cosTable_def angle_consts size_consts by (subst nth_map) simp_all
  also have "\<dots> = 4096" using m by (simp add: upto_nth_0)
  finally show ?thesis by (simp add: lookup_def trig_length)
qed

lemma sinTable_0: "msin 0 = 0 \<Longrightarrow> lookup (sinTable msin) 0 = Num 0"
proof -
  assume m: "msin 0 = 0"
  have "sinTable msin ! 0 = \<lfloor>msin ([0..1439] ! 0) * 4096\<rfloor>"
    unfolding sinTable_def angle_consts size_consts by (subst nth_map) simp_all
  also have "\<dots> = 0" using m by (simp add: upto_nth_0)
  finally show ?thesis by (simp add: lookup_def trig_length)
qed

lemma thrust_shift:
  assumes "- 128 \<le> t" "t \<le> 127"
  shows "js_sar (js_sar (16777216 * t) 12) 12 = t"
proof -
  have a: "toInt32 (16777216 * t) = 16777216 * t"
    using assms by (intro toInt32_id) auto
  have b: "16777216 * t div 4096 = 4096 * t" by simp
  have c: "toInt32 (4096 * t) = 4096 * t" using assms by (intro toInt32_id) auto
  have d: "js_sar (16777216 * t) 12 = 4096 * t"
    unfolding js_sar_def a using b by simp
  show ?thesis unfolding d unfolding js_sar_def c by simp
qed

lemma mod_js_0: "mod_js 0 1440 = 0"
  by (simp add: mod_js_eq)

lemma move_east_step:
  assumes c: "lookup C 0 = Num 4096" and s: "lookup S 0 = Num 0"
    and v: "heading v = 0" "roll v = 0" "pitch v = 0"
  shows "heading (move C S v) = 0"
    "ship_x (move C S v) = (ship_x v + js_sar (js_sar (16777216 * thrust v) 12) 12) mod 65536"
    "ship_y (move C S v) = ship_y v mod 65536"
proof -
  have h: "mod_js (heading v + roll v * rollToAngle v) fullCircle = 0"
    using v by (simp add: angle_consts mod_js_0)
  have z: "js_sar (js_sar 0 12) 12 = 0" by (simp add: js_sar_def toInt32_def)
  show "heading (move C S v) = 0" by (simp add: move_def h Let_def)
  show "ship_x (move C S v) = (ship_x v + js_sar (js_sar (16777216 * thrust v) 12) 12) mod 65536"
    using v(3) by (simp add: move_def h c s size_consts bitsBetweenTops_def mod_js_eq Let_def)
  show "ship_y (move C S v) = ship_y v mod 65536"
    using v(3) by (simp add: move_def h c s z size_consts bitsBetweenTops_def mod_js_eq Let_def)
qed

text \<open>
  C2, as the code has it: with the heading east, no roll, no pitch and a thrust \<open>T\<close> from
  \<open>-128\<close> to \<open>127\<close>, one \<^verbatim>\<open>move()\<close> leaves the heading as it is, takes \<open>x\<close> to
  \<open>(x + T) mod 2^16\<close> and \<open>y\<close> to \<open>y mod 2^16\<close>, which is \<open>y\<close> for a \<open>y\<close> inside the coordinate
  space. The entry 0 of the cosine table is 4096 and that of the sine table is 0, since
  \<^verbatim>\<open>Math.cos(0)\<close> is 1 and \<^verbatim>\<open>Math.sin(0)\<close> is 0; the product \<open>T * 4096 * 4096\<close> stays in the
  32-bit window of \<^verbatim>\<open>>>\<close> exactly for these \<open>T\<close>.
\<close>

theorem move_east:
  assumes "mcos 0 = 1" "msin 0 = 0"
    and "heading v = east" "roll v = 0" "pitch v = 0"
    and "- 128 \<le> thrust v" "thrust v \<le> 127"
  shows "heading (move (cosTable mcos) (sinTable msin) v) = heading v
    \<and> ship_x (move (cosTable mcos) (sinTable msin) v) = (ship_x v + thrust v) mod 2 ^ 16
    \<and> ship_y (move (cosTable mcos) (sinTable msin) v) = ship_y v mod 2 ^ 16
    \<and> (0 \<le> ship_y v \<and> ship_y v < 2 ^ 16 \<longrightarrow>
         ship_y (move (cosTable mcos) (sinTable msin) v) = ship_y v)"
proof -
  have c: "lookup (cosTable mcos) 0 = Num 4096" using assms(1) by (rule cosTable_0)
  have s: "lookup (sinTable msin) 0 = Num 0" using assms(2) by (rule sinTable_0)
  have h0: "heading v = 0" using assms(3) by (simp add: east_def)
  note st = move_east_step [OF c s h0 assms(4,5)]
  have t: "js_sar (js_sar (16777216 * thrust v) 12) 12 = thrust v"
    using assms(6,7) by (rule thrust_shift)
  show ?thesis using st h0 by (simp add: t)
qed

theorem move_east_witness:
  "heading (move (cosTable (\<lambda>angle. cos (real_of_int angle * pi / real_of_int halfCircle)))
                 (sinTable (\<lambda>angle. sin (real_of_int angle * pi / real_of_int halfCircle)))
      \<lparr>ship_x = 32768, ship_y = 32768, ship_z = 4096, thrust = 32, heading = east, pitch = 0,
        roll = 0, rollToAngle = 1\<rparr>) = east \<and>
   ship_x (move (cosTable (\<lambda>angle. cos (real_of_int angle * pi / real_of_int halfCircle)))
                 (sinTable (\<lambda>angle. sin (real_of_int angle * pi / real_of_int halfCircle)))
      \<lparr>ship_x = 32768, ship_y = 32768, ship_z = 4096, thrust = 32, heading = east, pitch = 0,
        roll = 0, rollToAngle = 1\<rparr>) = 32800 \<and>
   ship_y (move (cosTable (\<lambda>angle. cos (real_of_int angle * pi / real_of_int halfCircle)))
                 (sinTable (\<lambda>angle. sin (real_of_int angle * pi / real_of_int halfCircle)))
      \<lparr>ship_x = 32768, ship_y = 32768, ship_z = 4096, thrust = 32, heading = east, pitch = 0,
        roll = 0, rollToAngle = 1\<rparr>) = 32768"
  using move_east [of "\<lambda>angle. cos (real_of_int angle * pi / real_of_int halfCircle)"
      "\<lambda>angle. sin (real_of_int angle * pi / real_of_int halfCircle)"
      "\<lparr>ship_x = 32768, ship_y = 32768, ship_z = 4096, thrust = 32, heading = east, pitch = 0,
        roll = 0, rollToAngle = 1\<rparr>"]
  by simp

text \<open>
  C2, as the claim has it, for every thrust: with the thrust 128 the product is \<open>2^31\<close>,
  which \<^verbatim>\<open>>>\<close> reads as \<open>-2^31\<close>, and \<open>x\<close> moves by \<open>-128\<close>.
\<close>

theorem move_east_counterexample:
  "ship_x (move (cosTable (\<lambda>angle. cos (real_of_int angle * pi / real_of_int halfCircle)))
                 (sinTable (\<lambda>angle. sin (real_of_int angle * pi / real_of_int halfCircle)))
      \<lparr>ship_x = 32768, ship_y = 32768, ship_z = 4096, thrust = 128, heading = east, pitch = 0,
        roll = 0, rollToAngle = 1\<rparr>) = 32768 - 128"
proof -
  have c: "lookup (cosTable (\<lambda>angle. cos (real_of_int angle * pi / real_of_int halfCircle))) 0 = Num 4096"
    by (rule cosTable_0) simp
  have s: "lookup (sinTable (\<lambda>angle. sin (real_of_int angle * pi / real_of_int halfCircle))) 0 = Num 0"
    by (rule sinTable_0) simp
  have t: "js_sar (js_sar (16777216 * 128) 12) 12 = - 128"
    by (simp add: js_sar_def toInt32_def)
  have "ship_x (move (cosTable (\<lambda>angle. cos (real_of_int angle * pi / real_of_int halfCircle)))
                 (sinTable (\<lambda>angle. sin (real_of_int angle * pi / real_of_int halfCircle)))
      \<lparr>ship_x = 32768, ship_y = 32768, ship_z = 4096, thrust = 128, heading = east, pitch = 0,
        roll = 0, rollToAngle = 1\<rparr>) = (32768 + js_sar (js_sar (16777216 * 128) 12) 12) mod 65536"
    using move_east_step(2) [OF c s, of "\<lparr>ship_x = 32768, ship_y = 32768, ship_z = 4096,
        thrust = 128, heading = east, pitch = 0, roll = 0, rollToAngle = 1\<rparr>"]
    by (simp add: east_def)
  then show ?thesis unfolding t by simp
qed

lemma lookup_in: "0 \<le> i \<Longrightarrow> i < int (length t) \<Longrightarrow> lookup t i = Num (t ! nat i)"
  by (simp add: lookup_def)

lemma lookup_out: "i < 0 \<or> int (length t) \<le> i \<Longrightarrow> lookup t i = Undefined"
  by (auto simp: lookup_def)

lemma move_defined:
  assumes lc: "length C = 1440" and ls: "length S = 1440"
    and p: "0 \<le> pitch v" "pitch v < 1440"
  shows "move C S v =
     v\<lparr>heading := (heading v + roll v * rollToAngle v) mod 1440,
       ship_x := (ship_x v + js_sar (js_sar (thrust v
                    * (C ! nat ((heading v + roll v * rollToAngle v) mod 1440))
                    * (C ! nat (pitch v))) 12) 12) mod 65536,
       ship_y := (ship_y v - js_sar (js_sar (thrust v
                    * (S ! nat ((heading v + roll v * rollToAngle v) mod 1440))
                    * (C ! nat (pitch v))) 12) 12) mod 65536,
       ship_z := clamp (of_int (ship_z v + js_sar (thrust v * (S ! nat (pitch v))) 12)) 65536\<rparr>"
proof -
  let ?h = "(heading v + roll v * rollToAngle v) mod 1440"
  have h: "mod_js (heading v + roll v * rollToAngle v) fullCircle = ?h"
    by (simp add: angle_consts mod_js_eq)
  have hr: "0 \<le> ?h" "?h < 1440" by simp_all
  have l: "lookup C ?h = Num (C ! nat ?h)" "lookup S ?h = Num (S ! nat ?h)"
    "lookup C (pitch v) = Num (C ! nat (pitch v))" "lookup S (pitch v) = Num (S ! nat (pitch v))"
    using hr p lc ls by (simp_all add: lookup_in)
  show ?thesis
    unfolding move_def h Let_def l
    by (simp add: size_consts bitsBetweenTops_def mod_js_eq)
qed

lemma move_undefined_pitch:
  assumes lc: "length C = 1440" and ls: "length S = 1440"
    and p: "pitch v < 0 \<or> 1440 \<le> pitch v"
  shows "move C S v =
     v\<lparr>heading := (heading v + roll v * rollToAngle v) mod 1440,
       ship_x := ship_x v mod 65536, ship_y := ship_y v mod 65536,
       ship_z := clamp (of_int (ship_z v)) 65536\<rparr>"
proof -
  let ?h = "(heading v + roll v * rollToAngle v) mod 1440"
  have h: "mod_js (heading v + roll v * rollToAngle v) fullCircle = ?h"
    by (simp add: angle_consts mod_js_eq)
  have l: "lookup C (pitch v) = Undefined" "lookup S (pitch v) = Undefined"
    using p lc ls by (simp_all add: lookup_out)
  have z: "js_sar 0 12 = 0" by (simp add: js_sar_def toInt32_def)
  have m: "num_mul a Undefined = NaN" for a by (cases a) simp_all
  show ?thesis
    unfolding move_def h Let_def l
    by (simp add: m z size_consts bitsBetweenTops_def mod_js_eq)
qed

lemma move_reads_determine:
  assumes "\<forall>(t, i) \<in> set (move_reads v).
     lookup (case t of Cos \<Rightarrow> C | Sin \<Rightarrow> S) i = lookup (case t of Cos \<Rightarrow> C' | Sin \<Rightarrow> S') i"
  shows "move C S v = move C' S' v"
  using assms by (simp add: move_reads_def move_def Let_def)

text \<open>
  C10: with the pitch in \<open>[0, fullCircle)\<close> every index at which \<^verbatim>\<open>move()\<close> reads the cosine
  or the sine table lies inside the table, whose length is \<open>fullCircle\<close>, whatever integers
  the heading, the roll, the turn rate and the thrust are: the step is then computed from
  the table entries at the heading reduced modulo the full circle and at the pitch. The
  tables enter \<^verbatim>\<open>move()\<close> through these reads only. The reduced heading is in range for
  every pitch; the pitch is used as it is, and with a pitch outside \<open>[0, fullCircle)\<close> the
  reads at the pitch are \<^verbatim>\<open>undefined\<close> and the ship stays where it is.
\<close>

theorem move_reads_in_bounds:
  "(0 \<le> pitch v \<and> pitch v < fullCircle \<longrightarrow>
      (\<forall>(t, i) \<in> set (move_reads v). 0 \<le> i \<and> i < fullCircle \<and>
         lookup (case t of Cos \<Rightarrow> cosTable mcos | Sin \<Rightarrow> sinTable msin) i =
           Num ((case t of Cos \<Rightarrow> cosTable mcos | Sin \<Rightarrow> sinTable msin) ! nat i))
      \<and> move (cosTable mcos) (sinTable msin) v =
         v\<lparr>heading := (heading v + roll v * rollToAngle v) mod fullCircle,
           ship_x := (ship_x v + js_sar (js_sar (thrust v
                        * (cosTable mcos ! nat ((heading v + roll v * rollToAngle v) mod fullCircle))
                        * (cosTable mcos ! nat (pitch v))) 12) 12) mod 2 ^ 16,
           ship_y := (ship_y v - js_sar (js_sar (thrust v
                        * (sinTable msin ! nat ((heading v + roll v * rollToAngle v) mod fullCircle))
                        * (cosTable mcos ! nat (pitch v))) 12) 12) mod 2 ^ 16,
           ship_z := clamp (of_int (ship_z v
                        + js_sar (thrust v * (sinTable msin ! nat (pitch v))) 12)) (2 ^ 16)\<rparr>)
   \<and> length (cosTable mcos) = nat fullCircle \<and> length (sinTable msin) = nat fullCircle
   \<and> mod_js (heading v + roll v * rollToAngle v) fullCircle =
       (heading v + roll v * rollToAngle v) mod fullCircle
   \<and> 0 \<le> (heading v + roll v * rollToAngle v) mod fullCircle
   \<and> (heading v + roll v * rollToAngle v) mod fullCircle < fullCircle
   \<and> (pitch v < 0 \<or> fullCircle \<le> pitch v \<longrightarrow>
        lookup (cosTable mcos) (pitch v) = Undefined \<and>
        lookup (sinTable msin) (pitch v) = Undefined \<and>
        move (cosTable mcos) (sinTable msin) v =
          v\<lparr>heading := (heading v + roll v * rollToAngle v) mod fullCircle,
            ship_x := ship_x v mod 2 ^ 16, ship_y := ship_y v mod 2 ^ 16,
            ship_z := clamp (of_int (ship_z v)) (2 ^ 16)\<rparr>)
   \<and> (\<forall>C' S'. (\<forall>(t, i) \<in> set (move_reads v).
          lookup (case t of Cos \<Rightarrow> cosTable mcos | Sin \<Rightarrow> sinTable msin) i =
          lookup (case t of Cos \<Rightarrow> C' | Sin \<Rightarrow> S') i) \<longrightarrow>
        move (cosTable mcos) (sinTable msin) v = move C' S' v)"
proof -
  let ?C = "cosTable mcos" and ?S = "sinTable msin"
  let ?h = "(heading v + roll v * rollToAngle v) mod 1440"
  have len: "length ?C = 1440" "length ?S = 1440" by (rule trig_length)+
  have h: "mod_js (heading v + roll v * rollToAngle v) fullCircle = ?h"
    by (simp add: angle_consts mod_js_eq)
  have hr: "0 \<le> ?h" "?h < 1440" by simp_all
  have reads: "\<forall>(t, i) \<in> set (move_reads v). 0 \<le> i \<and> i < fullCircle \<and>
         lookup (case t of Cos \<Rightarrow> ?C | Sin \<Rightarrow> ?S) i =
           Num ((case t of Cos \<Rightarrow> ?C | Sin \<Rightarrow> ?S) ! nat i)"
    if "0 \<le> pitch v \<and> pitch v < fullCircle"
    using that hr unfolding move_reads_def h Let_def
    by (simp add: angle_consts lookup_in len)
  have step: "move ?C ?S v =
         v\<lparr>heading := ?h,
           ship_x := (ship_x v + js_sar (js_sar (thrust v * (?C ! nat ?h)
                        * (?C ! nat (pitch v))) 12) 12) mod 65536,
           ship_y := (ship_y v - js_sar (js_sar (thrust v * (?S ! nat ?h)
                        * (?C ! nat (pitch v))) 12) 12) mod 65536,
           ship_z := clamp (of_int (ship_z v
                        + js_sar (thrust v * (?S ! nat (pitch v))) 12)) 65536\<rparr>"
    if "0 \<le> pitch v \<and> pitch v < fullCircle"
    using that by (intro move_defined len) (simp_all add: angle_consts)
  have out: "lookup ?C (pitch v) = Undefined \<and> lookup ?S (pitch v) = Undefined \<and>
        move ?C ?S v =
          v\<lparr>heading := ?h, ship_x := ship_x v mod 65536, ship_y := ship_y v mod 65536,
            ship_z := clamp (of_int (ship_z v)) 65536\<rparr>"
    if "pitch v < 0 \<or> fullCircle \<le> pitch v"
    using that move_undefined_pitch [OF len, of v]
    by (auto simp: angle_consts lookup_out len)
  have det: "\<forall>C' S'. (\<forall>(t, i) \<in> set (move_reads v).
          lookup (case t of Cos \<Rightarrow> ?C | Sin \<Rightarrow> ?S) i =
          lookup (case t of Cos \<Rightarrow> C' | Sin \<Rightarrow> S') i) \<longrightarrow>
        move ?C ?S v = move C' S' v"
    using move_reads_determine by blast
  show ?thesis
    using reads step out det h hr len by (simp add: angle_consts)
qed

theorem move_reads_in_bounds_witness:
  "0 \<le> pitch \<lparr>ship_x = 32768, ship_y = 32768, ship_z = 4096, thrust = 32, heading = 10,
        pitch = 1439, roll = - 20, rollToAngle = 2\<rparr> \<and>
   pitch \<lparr>ship_x = 32768, ship_y = 32768, ship_z = 4096, thrust = 32, heading = 10,
        pitch = 1439, roll = - 20, rollToAngle = 2\<rparr> < fullCircle \<and>
   move_reads \<lparr>ship_x = 32768, ship_y = 32768, ship_z = 4096, thrust = 32, heading = 10,
        pitch = 1439, roll = - 20, rollToAngle = 2\<rparr> =
     [(Cos, 1410), (Cos, 1439), (Sin, 1410), (Cos, 1439), (Sin, 1439)] \<and>
   heading (move (cosTable (\<lambda>angle. cos (real_of_int angle * pi / real_of_int halfCircle)))
                 (sinTable (\<lambda>angle. sin (real_of_int angle * pi / real_of_int halfCircle)))
      \<lparr>ship_x = 32768, ship_y = 32768, ship_z = 4096, thrust = 32, heading = 10,
        pitch = 1439, roll = - 20, rollToAngle = 2\<rparr>) = 1410 \<and>
   lookup (cosTable (\<lambda>angle. cos (real_of_int angle * pi / real_of_int halfCircle))) 1410
     \<noteq> Undefined \<and>
   lookup (sinTable (\<lambda>angle. sin (real_of_int angle * pi / real_of_int halfCircle))) 1439
     \<noteq> Undefined"
proof -
  let ?v = "\<lparr>ship_x = 32768, ship_y = 32768, ship_z = 4096, thrust = 32, heading = 10,
        pitch = 1439, roll = - 20, rollToAngle = 2\<rparr>"
  let ?C = "cosTable (\<lambda>angle. cos (real_of_int angle * pi / real_of_int halfCircle))"
  let ?S = "sinTable (\<lambda>angle. sin (real_of_int angle * pi / real_of_int halfCircle))"
  have p: "0 \<le> pitch ?v \<and> pitch ?v < fullCircle" by (simp add: angle_consts)
  have hm: "(heading ?v + roll ?v * rollToAngle ?v) mod fullCircle = 1410"
    by (simp add: angle_consts)
  have r: "move_reads ?v = [(Cos, 1410), (Cos, 1439), (Sin, 1410), (Cos, 1439), (Sin, 1439)]"
    by (simp add: move_reads_def angle_consts mod_js_eq Let_def)
  note t = move_reads_in_bounds [of ?v "\<lambda>angle. cos (real_of_int angle * pi / real_of_int halfCircle)"
      "\<lambda>angle. sin (real_of_int angle * pi / real_of_int halfCircle)"]
  from t p have a: "\<forall>(t, i) \<in> set (move_reads ?v). 0 \<le> i \<and> i < fullCircle \<and>
         lookup (case t of Cos \<Rightarrow> ?C | Sin \<Rightarrow> ?S) i =
           Num ((case t of Cos \<Rightarrow> ?C | Sin \<Rightarrow> ?S) ! nat i)"
    by blast
  from t p have "heading (move ?C ?S ?v) = (heading ?v + roll ?v * rollToAngle ?v) mod fullCircle"
    by simp
  then have b: "heading (move ?C ?S ?v) = 1410" unfolding hm .
  have c: "lookup ?C 1410 \<noteq> Undefined" "lookup ?S 1439 \<noteq> Undefined"
    using a unfolding r by simp_all
  show ?thesis using p r b c by simp
qed

section \<open>Compositing a column\<close>

lemma beginFrame_topHeights:
  "0 \<le> c \<Longrightarrow> c < width vp \<Longrightarrow> lookup (topHeights (beginFrame vp)) c = Num (- 1)"
  by (simp add: beginFrame_def lookup_def)

lemma beginFrame_fields:
  "width (beginFrame vp) = width vp" "height (beginFrame vp) = height vp"
  "scalePowerOfTwo (beginFrame vp) = scalePowerOfTwo vp"
  by (simp_all add: beginFrame_def)

lemma draw_first:
  assumes "0 \<le> c" "c < width u" "lookup (topHeights u) c = Num (- 1)"
  shows "drawMountainColumn u c mtop =
     u\<lparr>canvas := canvas u @
           [DrawImage SkyPixel (js_shl c (scalePowerOfTwo u)) 0 (js_shl 1 (scalePowerOfTwo u))
              (js_shl (height u - mtop) (scalePowerOfTwo u)),
            DrawImage MountainPixel (js_shl c (scalePowerOfTwo u))
              (js_shl (height u - mtop) (scalePowerOfTwo u)) (js_shl 1 (scalePowerOfTwo u))
              (js_shl mtop (scalePowerOfTwo u))],
        topHeights := (topHeights u)[nat c := mtop]\<rparr>"
  using assms by (simp add: drawMountainColumn_def Let_def)

lemma draw_taller:
  assumes "0 \<le> c" "c < width u" "lookup (topHeights u) c = Num h" "h \<noteq> - 1" "h < mtop"
  shows "drawMountainColumn u c mtop =
     u\<lparr>canvas := canvas u @
           [DrawImage MountainEdgePixel (js_shl c (scalePowerOfTwo u))
              (js_shl (height u - h) (scalePowerOfTwo u)) (js_shl 1 (scalePowerOfTwo u))
              (js_shl 1 (scalePowerOfTwo u)),
            DrawImage MountainPixel (js_shl c (scalePowerOfTwo u))
              (js_shl (height u - mtop) (scalePowerOfTwo u)) (js_shl 1 (scalePowerOfTwo u))
              (js_shl (mtop - h) (scalePowerOfTwo u))],
        topHeights := (topHeights u)[nat c := mtop]\<rparr>"
  using assms by (simp add: drawMountainColumn_def Let_def)

lemma draw_hidden:
  assumes "lookup (topHeights u) c = Num h" "h \<noteq> - 1" "mtop \<le> h"
  shows "drawMountainColumn u c mtop = u"
  using assms by (simp add: drawMountainColumn_def Let_def)

lemma lookup_update_same:
  "lookup xs c = Num h \<Longrightarrow> lookup (xs[nat c := v]) c = Num v"
  by (auto simp: lookup_def split: if_splits)

lemma lookup_update_other:
  "0 \<le> c \<Longrightarrow> i \<noteq> c \<Longrightarrow> lookup (xs[nat c := v]) i = lookup xs i"
  by (auto simp: lookup_def nth_list_update)

lemma draw_monotone:
  assumes "lookup (topHeights u) i = Num h" "h \<noteq> - 1 \<or> - 1 \<le> mtop"
  shows "\<exists>h'. lookup (topHeights (drawMountainColumn u x mtop)) i = Num h' \<and> h \<le> h'"
proof (cases "x < 0 \<or> width u \<le> x")
  case True
  then show ?thesis using assms by (auto simp: drawMountainColumn_def)
next
  case inside: False
  show ?thesis
  proof (cases "lookup (topHeights u) x")
    case (Num th)
    show ?thesis
    proof (cases "i = x")
      case True
      with Num assms have hth: "th = h" by simp
      consider "th = - 1" | "th \<noteq> - 1" "th < mtop" | "th \<noteq> - 1" "mtop \<le> th" by linarith
      then show ?thesis
      proof cases
        case 1
        then have "drawMountainColumn u x mtop = u\<lparr>canvas := canvas u @
           [DrawImage SkyPixel (js_shl x (scalePowerOfTwo u)) 0 (js_shl 1 (scalePowerOfTwo u))
              (js_shl (height u - mtop) (scalePowerOfTwo u)),
            DrawImage MountainPixel (js_shl x (scalePowerOfTwo u))
              (js_shl (height u - mtop) (scalePowerOfTwo u)) (js_shl 1 (scalePowerOfTwo u))
              (js_shl mtop (scalePowerOfTwo u))],
          topHeights := (topHeights u)[nat x := mtop]\<rparr>"
          using inside Num by (intro draw_first) auto
        then show ?thesis
          using True Num 1 hth assms(2) lookup_update_same [of "topHeights u" x th mtop] by simp
      next
        case 2
        then have "drawMountainColumn u x mtop = u\<lparr>canvas := canvas u @
           [DrawImage MountainEdgePixel (js_shl x (scalePowerOfTwo u))
              (js_shl (height u - th) (scalePowerOfTwo u)) (js_shl 1 (scalePowerOfTwo u))
              (js_shl 1 (scalePowerOfTwo u)),
            DrawImage MountainPixel (js_shl x (scalePowerOfTwo u))
              (js_shl (height u - mtop) (scalePowerOfTwo u)) (js_shl 1 (scalePowerOfTwo u))
              (js_shl (mtop - th) (scalePowerOfTwo u))],
          topHeights := (topHeights u)[nat x := mtop]\<rparr>"
          using inside Num by (intro draw_taller) auto
        then show ?thesis
          using True Num 2 hth lookup_update_same [of "topHeights u" x th mtop] by simp
      next
        case 3
        then have "drawMountainColumn u x mtop = u" using Num by (intro draw_hidden) auto
        then show ?thesis using assms by simp
      qed
    next
      case False
      have "lookup (topHeights (drawMountainColumn u x mtop)) i = lookup (topHeights u) i"
        using inside Num False
        by (auto simp: drawMountainColumn_def Let_def lookup_update_other)
      then show ?thesis using assms by simp
    qed
  qed (use assms inside in \<open>auto simp: drawMountainColumn_def\<close>)
qed

text \<open>
  The scenario of C1. From a reset buffer, the tops 10, 25 and 18 submitted for one column
  of the viewport leave 25 recorded and make four \<^verbatim>\<open>drawImage\<close> calls: sky and mountain
  for the first top, the edge line and the new band for the second; the third changes
  nothing. A submission does not lower the value recorded for a column when that value is
  not \<open>-1\<close> or the submitted top is at least \<open>-1\<close>, and a top that is not above a recorded
  value other than \<open>-1\<close> draws nothing.
\<close>

lemma occlusion_compositing:
  assumes "0 \<le> c" "c < width vp"
  shows "lookup (topHeights (beginFrame vp)) c = Num (- 1)
    \<and> lookup (topHeights (drawMountainColumn (drawMountainColumn
          (drawMountainColumn (beginFrame vp) c 10) c 25) c 18)) c = Num 25
    \<and> canvas (drawMountainColumn (drawMountainColumn
          (drawMountainColumn (beginFrame vp) c 10) c 25) c 18) =
        canvas (beginFrame vp) @
          [DrawImage SkyPixel (js_shl c (scalePowerOfTwo vp)) 0 (js_shl 1 (scalePowerOfTwo vp))
             (js_shl (height vp - 10) (scalePowerOfTwo vp)),
           DrawImage MountainPixel (js_shl c (scalePowerOfTwo vp))
             (js_shl (height vp - 10) (scalePowerOfTwo vp)) (js_shl 1 (scalePowerOfTwo vp))
             (js_shl 10 (scalePowerOfTwo vp)),
           DrawImage MountainEdgePixel (js_shl c (scalePowerOfTwo vp))
             (js_shl (height vp - 10) (scalePowerOfTwo vp)) (js_shl 1 (scalePowerOfTwo vp))
             (js_shl 1 (scalePowerOfTwo vp)),
           DrawImage MountainPixel (js_shl c (scalePowerOfTwo vp))
             (js_shl (height vp - 25) (scalePowerOfTwo vp)) (js_shl 1 (scalePowerOfTwo vp))
             (js_shl (25 - 10) (scalePowerOfTwo vp))]
    \<and> drawMountainColumn (drawMountainColumn (drawMountainColumn (beginFrame vp) c 10) c 25) c 18
        = drawMountainColumn (drawMountainColumn (beginFrame vp) c 10) c 25
    \<and> (\<forall>u x mtop i h. lookup (topHeights u) i = Num h \<and> (h \<noteq> - 1 \<or> - 1 \<le> mtop) \<longrightarrow>
          (\<exists>h'. lookup (topHeights (drawMountainColumn u x mtop)) i = Num h' \<and> h \<le> h'))
    \<and> (\<forall>u x mtop h. lookup (topHeights u) x = Num h \<and> h \<noteq> - 1 \<and> mtop \<le> h \<longrightarrow>
          drawMountainColumn u x mtop = u)"
proof -
  define s0 where "s0 = beginFrame vp"
  define s1 where "s1 = drawMountainColumn s0 c 10"
  define s2 where "s2 = drawMountainColumn s1 c 25"
  have w0: "c < width s0" and f0: "height s0 = height vp" "scalePowerOfTwo s0 = scalePowerOfTwo vp"
    using assms by (simp_all add: s0_def beginFrame_fields)
  have l0: "lookup (topHeights s0) c = Num (- 1)"
    unfolding s0_def using assms by (rule beginFrame_topHeights)
  have e1: "s1 = s0\<lparr>canvas := canvas s0 @
           [DrawImage SkyPixel (js_shl c (scalePowerOfTwo s0)) 0 (js_shl 1 (scalePowerOfTwo s0))
              (js_shl (height s0 - 10) (scalePowerOfTwo s0)),
            DrawImage MountainPixel (js_shl c (scalePowerOfTwo s0))
              (js_shl (height s0 - 10) (scalePowerOfTwo s0)) (js_shl 1 (scalePowerOfTwo s0))
              (js_shl 10 (scalePowerOfTwo s0))],
        topHeights := (topHeights s0)[nat c := 10]\<rparr>"
    unfolding s1_def using assms(1) w0 l0 by (rule draw_first)
  have l1: "lookup (topHeights s1) c = Num 10"
    using lookup_update_same [OF l0, of 10] by (simp add: e1)
  have w1: "c < width s1" and f1: "height s1 = height vp" "scalePowerOfTwo s1 = scalePowerOfTwo vp"
    using w0 f0 by (simp_all add: e1)
  have e2: "s2 = s1\<lparr>canvas := canvas s1 @
           [DrawImage MountainEdgePixel (js_shl c (scalePowerOfTwo s1))
              (js_shl (height s1 - 10) (scalePowerOfTwo s1)) (js_shl 1 (scalePowerOfTwo s1))
              (js_shl 1 (scalePowerOfTwo s1)),
            DrawImage MountainPixel (js_shl c (scalePowerOfTwo s1))
              (js_shl (height s1 - 25) (scalePowerOfTwo s1)) (js_shl 1 (scalePowerOfTwo s1))
              (js_shl (25 - 10) (scalePowerOfTwo s1))],
        topHeights := (topHeights s1)[nat c := 25]\<rparr>"
    unfolding s2_def using assms(1) w1 l1 by (rule draw_taller) simp_all
  have l2: "lookup (topHeights s2) c = Num 25"
    using lookup_update_same [OF l1, of 25] by (simp add: e2)
  have e3: "drawMountainColumn s2 c 18 = s2"
    using l2 by (rule draw_hidden) simp_all
  have cv: "canvas s2 = canvas s0 @
          [DrawImage SkyPixel (js_shl c (scalePowerOfTwo vp)) 0 (js_shl 1 (scalePowerOfTwo vp))
             (js_shl (height vp - 10) (scalePowerOfTwo vp)),
           DrawImage MountainPixel (js_shl c (scalePowerOfTwo vp))
             (js_shl (height vp - 10) (scalePowerOfTwo vp)) (js_shl 1 (scalePowerOfTwo vp))
             (js_shl 10 (scalePowerOfTwo vp)),
           DrawImage MountainEdgePixel (js_shl c (scalePowerOfTwo vp))
             (js_shl (height vp - 10) (scalePowerOfTwo vp)) (js_shl 1 (scalePowerOfTwo vp))
             (js_shl 1 (scalePowerOfTwo vp)),
           DrawImage MountainPixel (js_shl c (scalePowerOfTwo vp))
             (js_shl (height vp - 25) (scalePowerOfTwo vp)) (js_shl 1 (scalePowerOfTwo vp))
             (js_shl (25 - 10) (scalePowerOfTwo vp))]"
    by (simp add: e2 f1) (simp add: e1 f0)
  have mono: "\<forall>u x mtop i h. lookup (topHeights u) i = Num h \<and> (h \<noteq> - 1 \<or> - 1 \<le> mtop) \<longrightarrow>
          (\<exists>h'. lookup (topHeights (drawMountainColumn u x mtop)) i = Num h' \<and> h \<le> h')"
    using draw_monotone by blast
  have hid: "\<forall>u x mtop h. lookup (topHeights u) x = Num h \<and> h \<noteq> - 1 \<and> mtop \<le> h \<longrightarrow>
          drawMountainColumn u x mtop = u"
    using draw_hidden by blast
  show ?thesis
    using l0 l2 e3 cv mono hid unfolding s2_def s1_def s0_def by simp
qed

lemma occlusion_compositing_viewport:
  "(0 :: int) \<le> 7 \<and>
   7 < width \<lparr>width = 160, height = 48, scalePowerOfTwo = 2, topHeights = [], canvas = []\<rparr> \<and>
   lookup (topHeights (drawMountainColumn (drawMountainColumn (drawMountainColumn
      (beginFrame \<lparr>width = 160, height = 48, scalePowerOfTwo = 2, topHeights = [], canvas = []\<rparr>)
      7 10) 7 25) 7 18)) 7 = Num 25 \<and>
   canvas (drawMountainColumn (drawMountainColumn (drawMountainColumn
      (beginFrame \<lparr>width = 160, height = 48, scalePowerOfTwo = 2, topHeights = [], canvas = []\<rparr>)
      7 10) 7 25) 7 18) =
     [ClearRect 0 0 640 192, DrawImage SkyPixel 28 0 4 152, DrawImage MountainPixel 28 152 4 40,
      DrawImage MountainEdgePixel 28 152 4 4, DrawImage MountainPixel 28 92 4 60]"
proof -
  let ?vp = "\<lparr>width = 160, height = 48, scalePowerOfTwo = 2, topHeights = [], canvas = []\<rparr>"
  have a: "(0 :: int) \<le> 7" "7 < width ?vp" by simp_all
  have b: "canvas (beginFrame ?vp) = [ClearRect 0 0 640 192]"
    by (simp add: beginFrame_def js_shl_def toInt32_def)
  note t = occlusion_compositing [OF a]
  have l: "lookup (topHeights (drawMountainColumn (drawMountainColumn (drawMountainColumn
      (beginFrame ?vp) 7 10) 7 25) 7 18)) 7 = Num 25"
    using t by blast
  have "canvas (drawMountainColumn (drawMountainColumn (drawMountainColumn
      (beginFrame ?vp) 7 10) 7 25) 7 18) = canvas (beginFrame ?vp) @
          [DrawImage SkyPixel (js_shl 7 (scalePowerOfTwo ?vp)) 0 (js_shl 1 (scalePowerOfTwo ?vp))
             (js_shl (height ?vp - 10) (scalePowerOfTwo ?vp)),
           DrawImage MountainPixel (js_shl 7 (scalePowerOfTwo ?vp))
             (js_shl (height ?vp - 10) (scalePowerOfTwo ?vp)) (js_shl 1 (scalePowerOfTwo ?vp))
             (js_shl 10 (scalePowerOfTwo ?vp)),
           DrawImage MountainEdgePixel (js_shl 7 (scalePowerOfTwo ?vp))
             (js_shl (height ?vp - 10) (scalePowerOfTwo ?vp)) (js_shl 1 (scalePowerOfTwo ?vp))
             (js_shl 1 (scalePowerOfTwo ?vp)),
           DrawImage MountainPixel (js_shl 7 (scalePowerOfTwo ?vp))
             (js_shl (height ?vp - 25) (scalePowerOfTwo ?vp)) (js_shl 1 (scalePowerOfTwo ?vp))
             (js_shl (25 - 10) (scalePowerOfTwo ?vp))]"
    using t by blast
  then have c: "canvas (drawMountainColumn (drawMountainColumn (drawMountainColumn
      (beginFrame ?vp) 7 10) 7 25) 7 18) =
     [ClearRect 0 0 640 192, DrawImage SkyPixel 28 0 4 152, DrawImage MountainPixel 28 152 4 40,
      DrawImage MountainEdgePixel 28 152 4 4, DrawImage MountainPixel 28 92 4 60]"
    unfolding b by (simp add: js_shl_def toInt32_def)
  show ?thesis using a l c by simp
qed

text \<open>
  C1: the recorded height of a column is lowered by a submission. The buffer marks an
  undrawn column with \<open>-1\<close>, and \<open>-1\<close> is also a top that a column can record. In the
  viewport of the program, column 7 records the top \<open>-1\<close>; the next top \<open>-5\<close> finds the
  marker, is painted as the first mountain of the column, sky included, and \<open>-5\<close> is
  recorded where \<open>-1\<close> was.
\<close>

theorem drawMountainColumn_marker_collision:
  "lookup (topHeights (drawMountainColumn
      (beginFrame \<lparr>width = 160, height = 48, scalePowerOfTwo = 2, topHeights = [], canvas = []\<rparr>)
      7 (- 1))) 7 = Num (- 1) \<and>
   lookup (topHeights (drawMountainColumn (drawMountainColumn
      (beginFrame \<lparr>width = 160, height = 48, scalePowerOfTwo = 2, topHeights = [], canvas = []\<rparr>)
      7 (- 1)) 7 (- 5))) 7 = Num (- 5) \<and>
   canvas (drawMountainColumn (drawMountainColumn
      (beginFrame \<lparr>width = 160, height = 48, scalePowerOfTwo = 2, topHeights = [], canvas = []\<rparr>)
      7 (- 1)) 7 (- 5)) =
     [ClearRect 0 0 640 192,
      DrawImage SkyPixel 28 0 4 196, DrawImage MountainPixel 28 196 4 (- 4),
      DrawImage SkyPixel 28 0 4 212, DrawImage MountainPixel 28 212 4 (- 20)]"
proof -
  let ?vp = "\<lparr>width = 160, height = 48, scalePowerOfTwo = 2, topHeights = [], canvas = []\<rparr>"
  define s0 where "s0 = beginFrame ?vp"
  define s1 where "s1 = drawMountainColumn s0 7 (- 1)"
  define s2 where "s2 = drawMountainColumn s1 7 (- 5)"
  have w0: "7 < width s0" and f0: "height s0 = 48" "scalePowerOfTwo s0 = 2"
    by (simp_all add: s0_def beginFrame_fields)
  have c0: "canvas s0 = [ClearRect 0 0 640 192]"
    by (simp add: s0_def beginFrame_def js_shl_def toInt32_def)
  have l0: "lookup (topHeights s0) 7 = Num (- 1)"
    unfolding s0_def by (rule beginFrame_topHeights) simp_all
  have e1: "s1 = s0\<lparr>canvas := canvas s0 @
           [DrawImage SkyPixel (js_shl 7 (scalePowerOfTwo s0)) 0 (js_shl 1 (scalePowerOfTwo s0))
              (js_shl (height s0 - (- 1)) (scalePowerOfTwo s0)),
            DrawImage MountainPixel (js_shl 7 (scalePowerOfTwo s0))
              (js_shl (height s0 - (- 1)) (scalePowerOfTwo s0)) (js_shl 1 (scalePowerOfTwo s0))
              (js_shl (- 1) (scalePowerOfTwo s0))],
        topHeights := (topHeights s0)[nat 7 := - 1]\<rparr>"
    unfolding s1_def using _ w0 l0 by (rule draw_first) simp
  have l1: "lookup (topHeights s1) 7 = Num (- 1)"
    using lookup_update_same [OF l0, of "- 1"] by (simp add: e1)
  have w1: "7 < width s1" and f1: "height s1 = 48" "scalePowerOfTwo s1 = 2"
    using w0 f0 by (simp_all add: e1)
  have c1: "canvas s1 = [ClearRect 0 0 640 192,
      DrawImage SkyPixel 28 0 4 196, DrawImage MountainPixel 28 196 4 (- 4)]"
    by (simp add: e1 c0 f0 js_shl_def toInt32_def)
  have e2: "s2 = s1\<lparr>canvas := canvas s1 @
           [DrawImage SkyPixel (js_shl 7 (scalePowerOfTwo s1)) 0 (js_shl 1 (scalePowerOfTwo s1))
              (js_shl (height s1 - (- 5)) (scalePowerOfTwo s1)),
            DrawImage MountainPixel (js_shl 7 (scalePowerOfTwo s1))
              (js_shl (height s1 - (- 5)) (scalePowerOfTwo s1)) (js_shl 1 (scalePowerOfTwo s1))
              (js_shl (- 5) (scalePowerOfTwo s1))],
        topHeights := (topHeights s1)[nat 7 := - 5]\<rparr>"
    unfolding s2_def using _ w1 l1 by (rule draw_first) simp
  have l2: "lookup (topHeights s2) 7 = Num (- 5)"
    using lookup_update_same [OF l1, of "- 5"] by (simp add: e2)
  have c2: "canvas s2 = [ClearRect 0 0 640 192,
      DrawImage SkyPixel 28 0 4 196, DrawImage MountainPixel 28 196 4 (- 4),
      DrawImage SkyPixel 28 0 4 212, DrawImage MountainPixel 28 212 4 (- 20)]"
    by (simp add: e2 c1 f1 js_shl_def toInt32_def)
  show ?thesis using l1 l2 c2 unfolding s2_def s1_def s0_def by simp
qed

section \<open>The fractal interpolation law\<close>













section \<open>The recursive interpolation\<close>

lemma js_sar_1_int32: "- (2 ^ 31) \<le> a \<Longrightarrow> a < 2 ^ 31 \<Longrightarrow> js_sar a 1 = a div 2"
  by (simp add: js_sar_def toInt32_id)

lemma interpolate_adjacent:
  assumes "js_sar (x1 + x2) 1 = x1 \<or> js_sar (x1 + x2) 1 = x2"
  shows "interpolate law e1 e2 x1 x2 y1 y2 b vp = Some vp"
  using assms by (subst interpolate.simps) (auto simp: Let_def)

lemma interpolate_guard:
  assumes "(x1 < 0 \<or> width vp \<le> x1) \<and> (x2 < 0 \<or> width vp \<le> y2)"
  shows "interpolate law e1 e2 x1 x2 y1 y2 b vp = Some vp"
  using assms by (subst interpolate.simps) simp

lemma interpolate_split:
  assumes "\<not> ((x1 < 0 \<or> width vp \<le> x1) \<and> (x2 < 0 \<or> width vp \<le> y2))"
    and "js_sar (x1 + x2) 1 = m" "m \<noteq> x1" "m \<noteq> x2"
    and "law e1 e2 x1 x2 y1 y2 b = (em, ym)"
  shows "interpolate law e1 e2 x1 x2 y1 y2 b vp =
     Option.bind (interpolate law e1 em x1 m y1 ym (b + 1) (drawMountainColumn vp m ym))
       (interpolate law em e2 m x2 ym y2 (b + 1))"
  using assms by (subst interpolate.simps) (auto simp: Let_def)

lemma draw_grows:
  "\<exists>ds. canvas (drawMountainColumn vp x t) = canvas vp @ ds \<and>
        width (drawMountainColumn vp x t) = width vp"
  by (cases "lookup (topHeights vp) x") (auto simp: drawMountainColumn_def Let_def)

text \<open>
  The recursion of \<^verbatim>\<open>#interpolate\<close> ends: between screen columns of magnitude below
  \<open>2^30\<close> every call returns, having only added calls to the canvas. It stops without
  subdividing when the midpoint is one of the two endpoint columns.
\<close>

lemma interpolate_returns:
  assumes "- (2 ^ 30) \<le> x1" "x1 < 2 ^ 30" "- (2 ^ 30) \<le> x2" "x2 < 2 ^ 30"
  shows "\<exists>vp' ds. interpolate law e1 e2 x1 x2 y1 y2 b vp = Some vp' \<and>
           canvas vp' = canvas vp @ ds \<and> width vp' = width vp"
  using assms
proof (induction "nat \<bar>x2 - x1\<bar>" arbitrary: x1 x2 e1 e2 y1 y2 b vp rule: less_induct)
  case less
  define m where "m = (x1 + x2) div 2"
  have mid: "js_sar (x1 + x2) 1 = m"
    unfolding m_def using less.prems by (intro js_sar_1_int32) auto
  show ?case
  proof (cases "(x1 < 0 \<or> width vp \<le> x1) \<and> (x2 < 0 \<or> width vp \<le> y2)")
    case True
    then have "interpolate law e1 e2 x1 x2 y1 y2 b vp = Some vp" by (rule interpolate_guard)
    then show ?thesis by simp
  next
    case guard: False
    show ?thesis
    proof (cases "m = x1 \<or> m = x2")
      case True
      then have "interpolate law e1 e2 x1 x2 y1 y2 b vp = Some vp"
        using mid by (intro interpolate_adjacent) simp
      then show ?thesis by simp
    next
      case False
      then have ne: "m \<noteq> x1" "m \<noteq> x2" by simp_all
      obtain em ym where l: "law e1 e2 x1 x2 y1 y2 b = (em, ym)"
        by (cases "law e1 e2 x1 x2 y1 y2 b")
      have split: "interpolate law e1 e2 x1 x2 y1 y2 b vp =
          Option.bind (interpolate law e1 em x1 m y1 ym (b + 1) (drawMountainColumn vp m ym))
            (interpolate law em e2 m x2 ym y2 (b + 1))"
        using guard mid ne l by (rule interpolate_split)
      have d1: "nat \<bar>m - x1\<bar> < nat \<bar>x2 - x1\<bar>" and d2: "nat \<bar>x2 - m\<bar> < nat \<bar>x2 - x1\<bar>"
        using ne unfolding m_def by linarith+
      have mb: "- (2 ^ 30) \<le> m" "m < 2 ^ 30"
        using less.prems unfolding m_def by linarith+
      obtain dd where dd: "canvas (drawMountainColumn vp m ym) = canvas vp @ dd"
        "width (drawMountainColumn vp m ym) = width vp"
        using draw_grows by blast
      from less.hyps [OF d1 less.prems(1,2) mb]
      obtain s1 ds1 where s1:
        "interpolate law e1 em x1 m y1 ym (b + 1) (drawMountainColumn vp m ym) = Some s1"
        "canvas s1 = canvas (drawMountainColumn vp m ym) @ ds1"
        "width s1 = width (drawMountainColumn vp m ym)"
        by blast
      from less.hyps [OF d2 mb less.prems(3,4)]
      obtain s2 ds2 where s2: "interpolate law em e2 m x2 ym y2 (b + 1) s1 = Some s2"
        "canvas s2 = canvas s1 @ ds2" "width s2 = width s1"
        by blast
      have "interpolate law e1 e2 x1 x2 y1 y2 b vp = Some s2"
        using split s1(1) s2(1) by simp
      moreover have "canvas s2 = canvas vp @ (dd @ ds1 @ ds2)" using s2(2) s1(2) dd(1) by simp
      moreover have "width s2 = width vp" using s2(3) s1(3) dd(2) by simp
      ultimately show ?thesis by blast
    qed
  qed
qed

text \<open>
  The test that \<^verbatim>\<open>#interpolate\<close> makes on its second endpoint compares the screen row \<open>y2\<close>
  with the width. An endpoint that is on the screen, with a row beyond the width, ends the
  call before anything is drawn.
\<close>

lemma interpolate_onscreen_skipped:
  "interpolate linearInterpolation 0 0 (- 5) 50 10 200 0
     (beginFrame \<lparr>width = 160, height = 48, scalePowerOfTwo = 2, topHeights = [], canvas = []\<rparr>)
   = Some (beginFrame \<lparr>width = 160, height = 48, scalePowerOfTwo = 2, topHeights = [], canvas = []\<rparr>)"
  by (rule interpolate_guard) (simp add: beginFrame_fields)

text \<open>
  C6, at the endpoints \<open>x1 = -1\<close> and \<open>x2 = 160\<close> of the viewport of width 160, with the rows
  10 and 12: both endpoints are off the viewport, and the call does not return at once. It
  subdivides, and the first column it draws is column 79, after the clearing of the frame.
\<close>

theorem interpolate_offscreen_draws:
  "(- 1 :: int) < 0 \<and>
   width (beginFrame \<lparr>width = 160, height = 48, scalePowerOfTwo = 2, topHeights = [], canvas = []\<rparr>)
     \<le> 160 \<and>
   (\<exists>vp' ds. interpolate linearInterpolation 0 0 (- 1) 160 10 12 0
       (beginFrame \<lparr>width = 160, height = 48, scalePowerOfTwo = 2, topHeights = [], canvas = []\<rparr>)
       = Some vp' \<and>
     canvas vp' = [ClearRect 0 0 640 192, DrawImage SkyPixel 316 0 4 148,
                   DrawImage MountainPixel 316 148 4 44] @ ds)"
proof -
  let ?vp = "\<lparr>width = 160, height = 48, scalePowerOfTwo = 2, topHeights = [], canvas = []\<rparr>"
  define s0 where "s0 = beginFrame ?vp"
  have w0: "width s0 = 160" "height s0 = 48" "scalePowerOfTwo s0 = 2"
    by (simp_all add: s0_def beginFrame_fields)
  have c0: "canvas s0 = [ClearRect 0 0 640 192]"
    by (simp add: s0_def beginFrame_def js_shl_def toInt32_def)
  have l0: "lookup (topHeights s0) 79 = Num (- 1)"
    unfolding s0_def by (rule beginFrame_topHeights) simp_all
  have guard: "\<not> (((- 1 :: int) < 0 \<or> width s0 \<le> - 1) \<and> ((160 :: int) < 0 \<or> width s0 \<le> 12))"
    by (simp add: w0)
  have mid: "js_sar (- 1 + 160) 1 = 79" by (simp add: js_sar_def toInt32_def)
  have law: "linearInterpolation 0 0 (- 1) 160 10 12 0 = (0, 11)"
    by (simp add: linearInterpolation_def js_sar_def toInt32_def)
  have split: "interpolate linearInterpolation 0 0 (- 1) 160 10 12 0 s0 =
      Option.bind (interpolate linearInterpolation 0 0 (- 1) 79 10 11 (0 + 1)
                     (drawMountainColumn s0 79 11))
        (interpolate linearInterpolation 0 0 79 160 11 12 (0 + 1))"
    using guard mid _ _ law by (rule interpolate_split) simp_all
  have d: "canvas (drawMountainColumn s0 79 11) =
      [ClearRect 0 0 640 192, DrawImage SkyPixel 316 0 4 148, DrawImage MountainPixel 316 148 4 44]"
    using l0 by (subst draw_first [where c = 79]) (simp_all add: w0 c0 js_shl_def toInt32_def)
  obtain s1 ds1 where s1: "interpolate linearInterpolation 0 0 (- 1) 79 10 11 (0 + 1)
        (drawMountainColumn s0 79 11) = Some s1"
    "canvas s1 = canvas (drawMountainColumn s0 79 11) @ ds1"
    using interpolate_returns [of "- 1" 79 linearInterpolation 0 0 10 11 "0 + 1"
        "drawMountainColumn s0 79 11"] by auto
  obtain s2 ds2 where s2: "interpolate linearInterpolation 0 0 79 160 11 12 (0 + 1) s1 = Some s2"
    "canvas s2 = canvas s1 @ ds2"
    using interpolate_returns [of 79 160 linearInterpolation 0 0 11 12 "0 + 1" s1] by auto
  have "interpolate linearInterpolation 0 0 (- 1) 160 10 12 0 s0 = Some s2"
    using split s1(1) s2(1) by simp
  moreover have "canvas s2 = [ClearRect 0 0 640 192, DrawImage SkyPixel 316 0 4 148,
                   DrawImage MountainPixel 316 148 4 44] @ (ds1 @ ds2)"
    using s2(2) s1(2) d by simp
  ultimately show ?thesis using w0(1) unfolding s0_def by auto
qed

end
